theory Spec2Isabelle
  imports Complex_Main
begin

section \<open>Python values used by \<^verbatim>\<open>backend/api.py\<close>\<close>

text \<open>
  Exceptions are values. \<open>LibraryError\<close> stands for whatever an external library
  (base64, numpy, OpenCV, Keras) raises; the other constructors are raised by the Python
  of the file itself.
\<close>

datatype exn =
    AttributeError
  | OverflowError
  | ZeroDivisionError
  | IndexError
  | ValueError
  | LibraryError string

subsection \<open>Binary64 floating point\<close>

text \<open>
  A Python \<open>float\<close> is an IEEE binary64 number. The code only produces zero, finite
  values and (by overflow of a product) an infinity, never a NaN, so a float is a rational
  or one of the two infinities. An arithmetic operation is the exact operation on
  rationals followed by rounding to the nearest representable value, ties to even.
\<close>

datatype pyfloat = NegInf | Finite rat | PosInf

text \<open>\<open>ilog2 n\<close> is the position of the highest set bit of \<open>n \<ge> 1\<close>.\<close>

fun ilog2 :: "int \<Rightarrow> int" where
  "ilog2 n = (if n < 2 then 0 else 1 + ilog2 (n div 2))"

declare ilog2.simps [simp del]

text \<open>The binary exponent \<open>\<lfloor>log\<^sub>2 x\<rfloor>\<close> of a positive rational.\<close>

definition floor_log2 :: "rat \<Rightarrow> int" where
  "floor_log2 x =
     (case quotient_of x of (p, q) \<Rightarrow>
        let d = ilog2 p - ilog2 q
        in if 2 powi d \<le> x then d else d - 1)"

definition round_half_even :: "rat \<Rightarrow> int" where
  "round_half_even x =
     (let f = \<lfloor>x\<rfloor>; d = x - of_int f
      in if d < 1 / 2 then f
         else if 1 / 2 < d then f + 1
         else if even f then f else f + 1)"

text \<open>
  The spacing of binary64 numbers around a positive \<open>x\<close>: 53 significant bits, and the
  fixed spacing \<open>2\<^sup>-\<^sup>1\<^sup>0\<^sup>7\<^sup>4\<close> of the subnormal range below \<open>2\<^sup>-\<^sup>1\<^sup>0\<^sup>2\<^sup>2\<close>.
\<close>

definition quantum :: "rat \<Rightarrow> rat" where
  "quantum x = 2 powi (max (floor_log2 x) (- 1022) - 52)"

definition round_magnitude :: "rat \<Rightarrow> rat" where
  "round_magnitude x = of_int (round_half_even (x / quantum x)) * quantum x"

text \<open>Rounding of an exact result; a magnitude that rounds to \<open>2\<^sup>1\<^sup>0\<^sup>2\<^sup>4\<close> overflows.\<close>

definition round_binary64 :: "rat \<Rightarrow> pyfloat" where
  "round_binary64 x =
     (if x = 0 then Finite 0
      else let m = round_magnitude \<bar>x\<bar>
           in if 2 ^ 1024 \<le> m then (if 0 < x then PosInf else NegInf)
              else Finite (if 0 < x then m else - m))"

text \<open>
  \<open>a / b\<close> on Python integers: the correctly rounded quotient; a quotient too large
  for a float raises \<open>OverflowError\<close>.
\<close>

definition int_truediv :: "int \<Rightarrow> int \<Rightarrow> exn + rat" where
  "int_truediv a b =
     (if b = 0 then Inl ZeroDivisionError
      else case round_binary64 (of_int a / of_int b) of
             Finite r \<Rightarrow> Inr r
           | _ \<Rightarrow> Inl OverflowError)"

text \<open>\<open>x * y\<close> on finite floats; the product may overflow to an infinity.\<close>

definition float_mul :: "rat \<Rightarrow> rat \<Rightarrow> pyfloat" where
  "float_mul x y = round_binary64 (x * y)"

fun float_less :: "pyfloat \<Rightarrow> pyfloat \<Rightarrow> bool" where
  "float_less (Finite x) (Finite y) = (x < y)"
| "float_less NegInf NegInf = False"
| "float_less NegInf _ = True"
| "float_less PosInf _ = False"
| "float_less (Finite x) PosInf = True"
| "float_less (Finite x) NegInf = False"


text \<open>Python's \<open>min(a, b)\<close> keeps \<open>a\<close> unless \<open>b\<close> is strictly smaller.\<close>

definition py_min :: "pyfloat \<Rightarrow> pyfloat \<Rightarrow> pyfloat" where
  "py_min a b = (if float_less b a then b else a)"

subsection \<open>Strings\<close>

definition endswith :: "string \<Rightarrow> string \<Rightarrow> bool" where
  "endswith w suffix =
     (length suffix \<le> length w \<and> drop (length w - length suffix) w = suffix)"

definition startswith :: "string \<Rightarrow> string \<Rightarrow> bool" where
  "startswith w pre = (take (length pre) w = pre)"

text \<open>
  \<open>after_first sep w\<close> is what follows the first occurrence of \<open>sep\<close> in \<open>w\<close>
  (\<open>None\<close> when \<open>sep\<close> does not occur, which is \<open>sep in w\<close> being false), and
  \<open>before_first sep w\<close> is what precedes it (all of \<open>w\<close> when there is none). For a
  string that contains \<open>sep\<close>, \<open>w.split(sep)[1]\<close> is the text between the first
  occurrence and the next one.
\<close>

fun after_first :: "string \<Rightarrow> string \<Rightarrow> string option" where
  "after_first sep [] = (if sep = [] then Some [] else None)"
| "after_first sep (c # cs) =
     (if startswith (c # cs) sep then Some (drop (length sep) (c # cs))
      else after_first sep cs)"

fun before_first :: "string \<Rightarrow> string \<Rightarrow> string" where
  "before_first sep [] = []"
| "before_first sep (c # cs) =
     (if startswith (c # cs) sep then [] else c # before_first sep cs)"

definition strip_data_uri :: "string \<Rightarrow> string" where
  "strip_data_uri image_data_base64 =
     (case after_first ''base64,'' image_data_base64 of
        None \<Rightarrow> image_data_base64
      | Some rest \<Rightarrow> before_first ''base64,'' rest)"

text \<open>Two spaces in a row somewhere in a string.\<close>

fun double_space :: "string \<Rightarrow> bool" where
  "double_space (a # b # cs) = ((a = CHR '' '' \<and> b = CHR '' '') \<or> double_space (b # cs))"
| "double_space _ = False"

section \<open>Session state\<close>

text \<open>
  The four attributes of \<open>SignLanguageSystem\<close> that \<open>_handle_prediction\<close> reads and
  writes. An attribute of a Python object exists only once it has been assigned:
  \<open>stable_frame_count\<close> is \<open>None\<close> while the object has no such attribute.
\<close>

record session =
  current_word :: string
  last_prediction :: string
  stable_frame_count :: "int option"
  already_locked :: bool

definition LOCK_THRESHOLD :: int where
  "LOCK_THRESHOLD = 50"

text \<open>The state that \<open>__init__\<close> leaves (lines 40 to 44).\<close>

definition init_state :: session where
  "init_state =
     \<lparr>current_word = '''', last_prediction = ''blank'',
      stable_frame_count = None, already_locked = False\<rparr>"

definition reset_state :: "session \<Rightarrow> session" where
  "reset_state s =
     s\<lparr>current_word := '''', last_prediction := ''blank'',
       stable_frame_count := Some 0, already_locked := False\<rparr>"

section \<open>The stability and lock state machine\<close>

record response =
  prediction :: string
  confidence :: pyfloat
  word :: string
  character :: string
  sentence :: string

text \<open>
  Lines 161 to 168. \<open>self.stable_frame_count += 1\<close> reads the attribute first and
  raises \<open>AttributeError\<close> when it does not exist; nothing has been written by then.
\<close>

definition update_stability :: "string \<Rightarrow> session \<Rightarrow> exn + session" where
  "update_stability current_prediction s =
     (if current_prediction = last_prediction s then
        (if \<not> already_locked s then
           (case stable_frame_count s of
              None \<Rightarrow> Inl AttributeError
            | Some n \<Rightarrow> Inr (s\<lparr>stable_frame_count := Some (n + 1)\<rparr>))
         else Inr s)
      else
        Inr (s\<lparr>last_prediction := current_prediction,
               stable_frame_count := Some 1,
               already_locked := False\<rparr>))"

text \<open>Line 171: \<open>min(100.0, (stable_frame_count / LOCK_THRESHOLD) * 100.0)\<close>.\<close>

definition temporal_confidence :: "int \<Rightarrow> exn + pyfloat" where
  "temporal_confidence n =
     (case int_truediv n LOCK_THRESHOLD of
        Inl e \<Rightarrow> Inl e
      | Inr q \<Rightarrow> Inr (py_min (Finite 100) (float_mul q 100)))"

text \<open>Lines 174 to 182.\<close>

definition commit :: "string \<Rightarrow> int \<Rightarrow> session \<Rightarrow> session" where
  "commit current_prediction n s =
     (if LOCK_THRESHOLD \<le> n \<and> \<not> already_locked s then
        (if current_prediction = ''blank'' then
           (if current_word s \<noteq> [] \<and> \<not> endswith (current_word s) '' ''
            then s\<lparr>current_word := current_word s @ '' ''\<rparr>
            else s)
         else s\<lparr>current_word := current_word s @ current_prediction\<rparr>)
        \<lparr>already_locked := True\<rparr>
      else s)"

text \<open>
  \<open>_handle_prediction\<close>: the session after the call, and the exception raised or the
  dictionary returned. An exception leaves the session as the statements before it
  wrote it.
\<close>

definition handle_prediction :: "string \<Rightarrow> session \<Rightarrow> session \<times> (exn + response)" where
  "handle_prediction current_prediction s =
     (case update_stability current_prediction s of
        Inl e \<Rightarrow> (s, Inl e)
      | Inr s1 \<Rightarrow>
          (case stable_frame_count s1 of
             None \<Rightarrow> (s1, Inl AttributeError)
           | Some n \<Rightarrow>
               (case temporal_confidence n of
                  Inl e \<Rightarrow> (s1, Inl e)
                | Inr c \<Rightarrow>
                    let s2 = commit current_prediction n s1
                    in (s2, Inr \<lparr>prediction = current_prediction,
                                 confidence = c,
                                 word = current_word s2,
                                 character = current_prediction,
                                 sentence = ''''\<rparr>))))"

text \<open>
  The sessions the service can be in: the constructed one, the reset one, and every
  session a call of \<open>_handle_prediction\<close> leaves, whether it returned or raised. The
  symbols are the ones \<open>process_frame\<close> passes on: \<open>blank\<close> and the 26 letters.
\<close>

definition ascii_uppercase :: string where
  "ascii_uppercase = ''ABCDEFGHIJKLMNOPQRSTUVWXYZ''"

definition symbols :: "string list" where
  "symbols = ''blank'' # map (\<lambda>c. [c]) ascii_uppercase"

inductive reachable :: "session \<Rightarrow> bool" where
  constructed: "reachable init_state"
| reset: "reachable s \<Longrightarrow> reachable (reset_state s)"
| frame: "reachable s \<Longrightarrow> symbol \<in> set symbols \<Longrightarrow> reachable (fst (handle_prediction symbol s))"

text \<open>The same symbol on \<open>n\<close> consecutive frames; the session after the last one.\<close>

fun feed :: "nat \<Rightarrow> string \<Rightarrow> session \<Rightarrow> session" where
  "feed 0 symbol s = s"
| "feed (Suc n) symbol s = feed n symbol (fst (handle_prediction symbol s))"

text \<open>
  What holds of every session the service can be in: without a frame count the session is
  the constructed one; a frame count lies between 0 and 50, is 50 exactly when the session
  is locked, and is 0 only in the reset session.
\<close>

definition in_range :: "session \<Rightarrow> bool" where
  "in_range s =
     (case stable_frame_count s of
        None \<Rightarrow> s = init_state
      | Some n \<Rightarrow> 0 \<le> n \<and> n \<le> 50 \<and> (already_locked s \<longleftrightarrow> n = 50)
                  \<and> (n = 0 \<longrightarrow> s = reset_state init_state))"

section \<open>The frame pipeline\<close>

text \<open>
  A decoded frame is a numpy array of shape \<open>(height, width, 3)\<close>. \<open>slice\<close> is
  numpy's \<open>a[r0:r1, c0:c1]\<close> for bounds that are not negative: both ends are clamped to
  the array.
\<close>

type_synonym pixel = "nat \<times> nat \<times> nat"

record image =
  height :: nat
  width :: nat
  pixels :: "pixel list list"

definition slice :: "image \<Rightarrow> nat \<Rightarrow> nat \<Rightarrow> nat \<Rightarrow> nat \<Rightarrow> image" where
  "slice a r0 r1 c0 c1 =
     \<lparr>height = min r1 (height a) - min r0 (height a),
      width = min c1 (width a) - min c0 (width a),
      pixels = map (\<lambda>row. take (c1 - c0) (drop c0 row)) (take (r1 - r0) (drop r0 (pixels a)))\<rparr>"

definition np_size :: "image \<Rightarrow> nat" where
  "np_size a = height a * width a * 3"

text \<open>Lines 96 to 100: the centred region of interest, 515 wide and 289 high.\<close>

definition roi_of :: "image \<Rightarrow> image" where
  "roi_of frame =
     (let h = int (height frame); w = int (width frame);
          roi_w = 515; roi_h = 289;
          y1 = max 0 ((h - roi_h) div 2);
          x1 = max 0 ((w - roi_w) div 2)
      in slice frame (nat y1) (nat (y1 + roi_h)) (nat x1) (nat (x1 + roi_w)))"

text \<open>
  The collaborators of the pipeline, each able to raise. \<open>'m\<close> is a single-channel
  image of OpenCV and \<open>'t\<close> the tensor given to the classifiers; the pipeline only
  passes them on.
  \<^item> \<open>cv_imdecode\<close>: lines 86 to 88, \<open>base64.b64decode\<close>, \<open>np.frombuffer\<close> and
    \<open>cv2.imdecode\<close>, which returns \<open>None\<close> for bytes that are no image;
  \<^item> \<open>cv_flip\<close>: line 95;
  \<^item> \<open>binarize\<close>: lines 105 to 121, grey scale, blur, the two thresholds and the opening;
  \<^item> \<open>contour_areas\<close>: lines 124 and 125, \<open>cv2.contourArea\<close> of every external contour;
  \<^item> \<open>to_input\<close>: lines 129 to 134, resize, threshold, scale and reshape;
  \<^item> the four models: \<open>predict(input_data)[0]\<close>, the scores of the one input.
\<close>

record ('m, 't) collaborators =
  cv_imdecode :: "string \<Rightarrow> exn + image option"
  cv_flip :: "image \<Rightarrow> exn + image"
  binarize :: "image \<Rightarrow> exn + 'm"
  contour_areas :: "'m \<Rightarrow> exn + rat list"
  to_input :: "'m \<Rightarrow> exn + 't"
  loaded_model :: "'t \<Rightarrow> exn + rat list"
  loaded_model_dru :: "'t \<Rightarrow> exn + rat list"
  loaded_model_tkdi :: "'t \<Rightarrow> exn + rat list"
  loaded_model_smn :: "'t \<Rightarrow> exn + rat list"

text \<open>
  What \<open>process_frame\<close> gives its caller: an exception that leaves it, \<open>None\<close>, the
  dictionary \<open>{"error": ..., "confidence": ...}\<close> of line 81, or a response.
\<close>

datatype outcome =
    Raised exn
  | ReturnedNone
  | ErrorDict string int
  | Returned response

text \<open>
  Lines 80 to 134: the frame up to the classifier's input. The only \<open>try\<close> of the
  function encloses the decoding (lines 83 to 92).
\<close>

datatype 't prepared = Stop outcome | Blank | Mask 't

definition preprocess :: "('m, 't) collaborators \<Rightarrow> string \<Rightarrow> 't prepared" where
  "preprocess env image_data_base64 =
     (if image_data_base64 = [] then Stop (ErrorDict ''No image data'' 0)
      else case cv_imdecode env (strip_data_uri image_data_base64) of
        Inl e \<Rightarrow> Stop ReturnedNone
      | Inr None \<Rightarrow> Stop ReturnedNone
      | Inr (Some decoded) \<Rightarrow>
          (case cv_flip env decoded of
             Inl e \<Rightarrow> Stop (Raised e)
           | Inr frame \<Rightarrow>
               let roi = roi_of frame
               in if np_size roi = 0 then Blank
                  else case binarize env roi of
                    Inl e \<Rightarrow> Stop (Raised e)
                  | Inr th3 \<Rightarrow>
                      (case contour_areas env th3 of
                         Inl e \<Rightarrow> Stop (Raised e)
                       | Inr areas \<Rightarrow>
                           if areas = [] \<or> Max (set areas) < 2500 then Blank
                           else case to_input env th3 of
                             Inl e \<Rightarrow> Stop (Raised e)
                           | Inr input_data \<Rightarrow> Mask input_data)))"

text \<open>
  Lines 138 to 140: the dictionary from label to score, in insertion order. Reading
  \<open>result[0][i + 1]\<close> past the end raises \<open>IndexError\<close>.
\<close>

definition prediction_map :: "rat list \<Rightarrow> exn + (string \<times> rat) list" where
  "prediction_map result0 =
     (if length result0 < 27 then Inl IndexError
      else Inr ((''blank'', result0 ! 0) #
                map (\<lambda>(i, char). ([char], result0 ! (i + 1))) (enumerate 0 ascii_uppercase)))"

text \<open>
  Lines 142 and 143: \<open>sorted(..., key=itemgetter(1), reverse=True)[0][0]\<close>. Python's
  sort is stable, also with \<open>reverse=True\<close>: among equal scores the earlier label stays
  first, as in a stable ascending sort on the negated score.
\<close>

definition top_symbol :: "(string \<times> rat) list \<Rightarrow> string" where
  "top_symbol items = fst (hd (sort_key (\<lambda>item. - snd item) items))"

text \<open>\<open>np.argmax\<close>: the first index of the greatest entry; \<open>ValueError\<close> on no entries.\<close>

fun argmax_from :: "rat list \<Rightarrow> nat \<Rightarrow> rat \<Rightarrow> nat \<Rightarrow> nat" where
  "argmax_from [] i best k = k"
| "argmax_from (x # xs) i best k =
     (if best < x then argmax_from xs (i + 1) x i else argmax_from xs (i + 1) best k)"

definition np_argmax :: "rat list \<Rightarrow> exn + nat" where
  "np_argmax v = (case v of [] \<Rightarrow> Inl ValueError | x # xs \<Rightarrow> Inr (argmax_from xs 1 x 0))"

text \<open>One arm of lines 147 to 155: \<open>labels[np.argmax(model.predict(input_data)[0])]\<close>.\<close>

definition refine :: "('t \<Rightarrow> exn + rat list) \<Rightarrow> string list \<Rightarrow> 't \<Rightarrow> exn + string" where
  "refine model labels input_data =
     (case model input_data of
        Inl e \<Rightarrow> Inl e
      | Inr res0 \<Rightarrow>
          (case np_argmax res0 of
             Inl e \<Rightarrow> Inl e
           | Inr i \<Rightarrow> if i < length labels then Inr (labels ! i) else Inl IndexError))"

text \<open>Lines 137 to 155: the cascade, from the input tensor to the final symbol.\<close>

definition classify :: "('m, 't) collaborators \<Rightarrow> 't \<Rightarrow> exn + string" where
  "classify env input_data =
     (case loaded_model env input_data of
        Inl e \<Rightarrow> Inl e
      | Inr result0 \<Rightarrow>
          (case prediction_map result0 of
             Inl e \<Rightarrow> Inl e
           | Inr pm \<Rightarrow>
               let top = top_symbol pm
               in if top \<in> set [''D'', ''R'', ''U''] then
                    refine (loaded_model_dru env) [''D'', ''R'', ''U''] input_data
                  else if top \<in> set [''D'', ''I'', ''K'', ''T''] then
                    refine (loaded_model_tkdi env) [''D'', ''I'', ''K'', ''T''] input_data
                  else if top \<in> set [''M'', ''N'', ''S''] then
                    refine (loaded_model_smn env) [''M'', ''N'', ''S''] input_data
                  else Inr top))"

definition finish :: "session \<times> (exn + response) \<Rightarrow> session \<times> outcome" where
  "finish r = (fst r, case snd r of Inl e \<Rightarrow> Raised e | Inr resp \<Rightarrow> Returned resp)"

definition process_frame ::
  "('m, 't) collaborators \<Rightarrow> string \<Rightarrow> session \<Rightarrow> session \<times> outcome" where
  "process_frame env image_data_base64 s =
     (case preprocess env image_data_base64 of
        Stop out \<Rightarrow> (s, out)
      | Blank \<Rightarrow> finish (handle_prediction ''blank'' s)
      | Mask input_data \<Rightarrow>
          (case classify env input_data of
             Inl e \<Rightarrow> (s, Raised e)
           | Inr final_symbol \<Rightarrow> finish (handle_prediction final_symbol s)))"

section \<open>Concrete collaborators\<close>

text \<open>
  Collaborators that answer the same whatever they are given, and a frame of one colour:
  enough to run the pipeline on a concrete input.
\<close>

definition fixed_collaborators ::
  "(exn + image option) \<Rightarrow> rat list \<Rightarrow> (exn + rat list) \<Rightarrow> (exn + rat list)
     \<Rightarrow> (exn + rat list) \<Rightarrow> (exn + rat list) \<Rightarrow> (unit, unit) collaborators" where
  "fixed_collaborators decoded areas primary dru tkdi smn =
     \<lparr>cv_imdecode = (\<lambda>_. decoded),
      cv_flip = (\<lambda>frame. Inr frame),
      binarize = (\<lambda>_. Inr ()),
      contour_areas = (\<lambda>_. Inr areas),
      to_input = (\<lambda>_. Inr ()),
      loaded_model = (\<lambda>_. primary),
      loaded_model_dru = (\<lambda>_. dru),
      loaded_model_tkdi = (\<lambda>_. tkdi),
      loaded_model_smn = (\<lambda>_. smn)\<rparr>"

definition black_frame :: "nat \<Rightarrow> nat \<Rightarrow> image" where
  "black_frame h w = \<lparr>height = h, width = w, pixels = replicate h (replicate w (0, 0, 0))\<rparr>"

text \<open>
  A frame of spec scenario 5: the primary classifier ranks \<open>D\<close> highest, the DRU
  classifier ranks \<open>R\<close> highest, and the TKDI classifier would raise if it were called.
\<close>

definition sample_scores :: "rat list" where
  "sample_scores =
     [1 / 100, 0, 0, 1 / 20, 9 / 10, 0, 0, 0, 0, 0, 0, 0, 0, 0,
      0, 0, 0, 0, 1 / 25, 0, 0, 0, 0, 0, 0, 0, 0]"

definition sample_collaborators :: "(unit, unit) collaborators" where
  "sample_collaborators =
     fixed_collaborators (Inr (Some (black_frame 480 640))) [3000]
       (Inr sample_scores) (Inr [1 / 10, 7 / 10, 1 / 5])
       (Inl (LibraryError ''tkdi'')) (Inr [])"

section \<open>Facts about rounding\<close>

lemma ilog2_nonneg: "0 \<le> ilog2 n"
  by (induction n rule: ilog2.induct) (subst ilog2.simps, simp)

lemma ilog2_bounds:
  "1 \<le> n \<Longrightarrow> 2 ^ nat (ilog2 n) \<le> n \<and> n < 2 * 2 ^ nat (ilog2 n)"
proof (induction n rule: ilog2.induct)
  case (1 n)
  show ?case
  proof (cases "n < 2")
    case True
    with 1(2) have "n = 1" by simp
    then show ?thesis by (simp add: ilog2.simps)
  next
    case False
    then have h: "1 \<le> n div 2" by simp
    have eq: "ilog2 n = 1 + ilog2 (n div 2)"
      using False by (subst ilog2.simps) simp
    have nn: "nat (1 + ilog2 (n div 2)) = Suc (nat (ilog2 (n div 2)))"
      using ilog2_nonneg [of "n div 2"] by simp
    from 1(1) [OF False h]
    have ih: "2 ^ nat (ilog2 (n div 2)) \<le> n div 2"
             "n div 2 < 2 * 2 ^ nat (ilog2 (n div 2))" by simp_all
    show ?thesis
      unfolding eq nn using ih by (simp; linarith)
  qed
qed

lemma floor_log2_bounds:
  assumes "0 < x"
  shows "2 powi (floor_log2 x) \<le> x \<and> x < 2 powi (floor_log2 x + 1)"
proof -
  obtain p q where pq: "quotient_of x = (p, q)" by (cases "quotient_of x")
  have q: "0 < q" using pq by (rule quotient_of_denom_pos)
  have x: "x = of_int p / of_int q" using pq by (rule quotient_of_div)
  have p: "0 < p" using assms q unfolding x by (simp add: zero_less_divide_iff)
  define a where "a = ilog2 p"
  define b where "b = ilog2 q"
  define P :: int where "P = 2 ^ nat a"
  define Q :: int where "Q = 2 ^ nat b"
  have Pb: "P \<le> p" "p < 2 * P"
    using ilog2_bounds [of p] p by (simp_all add: P_def a_def)
  have Qb: "Q \<le> q" "q < 2 * Q"
    using ilog2_bounds [of q] q by (simp_all add: Q_def b_def)
  have Ppos: "0 < P" and Qpos: "0 < Q" by (simp_all add: P_def Q_def)
  have a0: "0 \<le> a" and b0: "0 \<le> b" by (simp_all add: a_def b_def ilog2_nonneg)
  have pa: "(2::rat) powi a = of_int P"
    using a0 by (simp add: P_def power_int_nonneg_exp)
  have pb: "(2::rat) powi b = of_int Q"
    using b0 by (simp add: Q_def power_int_nonneg_exp)
  have d: "(2::rat) powi (a - b) = of_int P / of_int Q"
    by (simp add: power_int_diff pa pb)
  have lo: "(2::rat) powi (a - b - 1) \<le> x"
  proof -
    have "P * q \<le> p * (2 * Q)"
      using Pb Qb Ppos Qpos p q by (intro mult_mono) simp_all
    then have "(of_int (P * q) :: rat) \<le> of_int (p * (2 * Q))"
      by (simp only: of_int_le_iff)
    then have "(of_int P :: rat) / (2 * of_int Q) \<le> of_int p / of_int q"
      using q Qpos by (simp add: field_simps)
    moreover have "(2::rat) powi (a - b - 1) = of_int P / (2 * of_int Q)"
      by (simp add: power_int_diff d)
    ultimately show ?thesis by (simp add: x)
  qed
  have hi: "x < (2::rat) powi (a - b + 1)"
  proof -
    have "p * Q < (2 * P) * q"
      using Pb Qb Ppos Qpos p q by (intro mult_less_le_imp_less) simp_all
    then have "(of_int (p * Q) :: rat) < of_int ((2 * P) * q)"
      by (simp only: of_int_less_iff)
    then have "of_int p / of_int q < (2 * of_int P :: rat) / of_int Q"
      using q Qpos by (simp add: field_simps)
    moreover have "(2::rat) powi (a - b + 1) = 2 * of_int P / of_int Q"
      by (simp add: power_int_add d)
    ultimately show ?thesis by (simp add: x)
  qed
  have fl: "floor_log2 x = (if 2 powi (a - b) \<le> x then a - b else a - b - 1)"
    by (simp add: floor_log2_def pq a_def b_def Let_def)
  show ?thesis
  proof (cases "2 powi (a - b) \<le> x")
    case True
    then show ?thesis using hi by (simp add: fl)
  next
    case False
    then show ?thesis using lo by (simp add: fl)
  qed
qed

lemma floor_log2_unique:
  assumes "2 powi e \<le> x" "x < 2 powi (e + 1)"
  shows "floor_log2 x = e"
proof -
  have "(0::rat) < 2 powi e" by simp
  then have x: "0 < x" using assms(1) by (rule less_le_trans)
  note b = floor_log2_bounds [OF x]
  let ?f = "floor_log2 x"
  have "\<not> ?f < e"
  proof
    assume "?f < e"
    then have "(2::rat) powi (?f + 1) \<le> 2 powi e"
      by (intro power_int_increasing) simp_all
    with b assms show False by simp
  qed
  moreover have "\<not> e < ?f"
  proof
    assume "e < ?f"
    then have "(2::rat) powi (e + 1) \<le> 2 powi ?f"
      by (intro power_int_increasing) simp_all
    with b assms show False by simp
  qed
  ultimately show ?thesis by simp
qed


lemma round_half_even_of_int: "round_half_even (of_int k) = k"
  by (simp add: round_half_even_def)

lemma round_half_even_range:
  "\<lfloor>x\<rfloor> \<le> round_half_even x \<and> round_half_even x \<le> \<lfloor>x\<rfloor> + 1"
  by (simp add: round_half_even_def Let_def)

lemma round_half_even_mono:
  assumes "x \<le> y"
  shows "round_half_even x \<le> round_half_even y"
proof (cases "\<lfloor>x\<rfloor> = \<lfloor>y\<rfloor>")
  case True
  then show ?thesis
    using assms by (auto simp: round_half_even_def Let_def)
next
  case False
  have "\<lfloor>x\<rfloor> \<le> \<lfloor>y\<rfloor>" using assms by (rule floor_mono)
  with False have "\<lfloor>x\<rfloor> + 1 \<le> \<lfloor>y\<rfloor>" by simp
  with round_half_even_range [of x] round_half_even_range [of y]
  show ?thesis by linarith
qed

lemma quantum_pos: "0 < quantum x"
  by (simp add: quantum_def)


lemma round_magnitude_le_pow2:
  assumes "0 < x" "x \<le> 2 powi (k + 1)" "max (floor_log2 x) (- 1022) \<le> k"
  shows "round_magnitude x \<le> 2 powi (k + 1)"
proof -
  define e where "e = max (floor_log2 x) (- 1022)"
  have q: "quantum x = 2 powi (e - 52)" by (simp add: quantum_def e_def)
  have "(2::rat) powi (k + 1) = 2 powi (k + 53 - e) * 2 powi (e - 52)"
    by (simp flip: power_int_add)
  moreover have "(2::rat) powi (k + 53 - e) = of_int (2 ^ nat (k + 53 - e))"
    using assms(3) by (simp add: e_def power_int_nonneg_exp)
  ultimately have eq: "(2::rat) powi (k + 1) = of_int (2 ^ nat (k + 53 - e)) * quantum x"
    by (simp add: q)
  have "x / quantum x \<le> of_int (2 ^ nat (k + 53 - e))"
    using assms(2) quantum_pos [of x] unfolding eq by (simp add: field_simps)
  then have "round_half_even (x / quantum x) \<le> 2 ^ nat (k + 53 - e)"
    using round_half_even_mono round_half_even_of_int by metis
  then have "(of_int (round_half_even (x / quantum x)) :: rat) \<le> of_int (2 ^ nat (k + 53 - e))"
    by (simp only: of_int_le_iff)
  then show ?thesis
    unfolding round_magnitude_def eq using quantum_pos [of x]
    by (intro mult_right_mono) simp_all
qed




lemma round_magnitude_eval:
  assumes "2 powi e \<le> x" "x < 2 powi (e + 1)" "- 1022 \<le> e"
  shows "round_magnitude x = of_int (round_half_even (x / 2 powi (e - 52))) * 2 powi (e - 52)"
proof -
  have "floor_log2 x = e" using assms(1,2) by (rule floor_log2_unique)
  then have "quantum x = 2 powi (e - 52)"
    using assms(3) by (simp add: quantum_def max_def)
  then show ?thesis by (simp add: round_magnitude_def)
qed

lemma round_magnitude_1: "round_magnitude 1 = 1"
  using round_magnitude_eval [of 0 1] by (simp add: round_half_even_def)

lemma round_magnitude_100: "round_magnitude 100 = 100"
  using round_magnitude_eval [of 6 100] by (simp add: round_half_even_def)

lemma round_magnitude_bounded:
  assumes "0 < x" "x < 2 ^ 1023"
  shows "round_magnitude x < 2 ^ 1024"
proof -
  have "(2::rat) powi floor_log2 x < 2 powi 1023"
    using floor_log2_bounds [OF assms(1)] assms(2) by simp
  then have "floor_log2 x < 1023"
    by (rule power_int_le_imp_less_exp [rotated]) simp_all
  then have "round_magnitude x \<le> 2 powi (1022 + 1)"
    using assms by (intro round_magnitude_le_pow2) simp_all
  then show ?thesis by simp
qed

section \<open>Facts about the state machine\<close>


lemma int_truediv_small:
  assumes "0 \<le> n" "n < 2 ^ 1000"
  shows "int_truediv n LOCK_THRESHOLD =
           Inr (if n = 0 then 0 else round_magnitude (of_int n / 50))"
proof (cases "n = 0")
  case True
  then show ?thesis by (simp add: int_truediv_def LOCK_THRESHOLD_def round_binary64_def)
next
  case False
  with assms have pos: "(0::rat) < of_int n / 50" by simp
  have "(of_int n :: rat) < of_int (2 ^ 1000)"
    using assms(2) by (simp only: of_int_less_iff)
  moreover have "(of_int n :: rat) / 50 \<le> of_int n" using assms(1) by simp
  ultimately have "(of_int n :: rat) / 50 < 2 ^ 1000" by simp
  also have "(2::rat) ^ 1000 \<le> 2 ^ 1023" by (rule power_increasing) simp_all
  finally have "round_magnitude (of_int n / 50) < 2 ^ 1024"
    using pos by (intro round_magnitude_bounded)
  then show ?thesis
    using False pos by (simp add: int_truediv_def LOCK_THRESHOLD_def round_binary64_def Let_def)
qed

lemma temporal_confidence_small:
  assumes "0 \<le> n" "n < 2 ^ 1000"
  shows "temporal_confidence n =
           Inr (py_min (Finite 100)
                  (float_mul (if n = 0 then 0 else round_magnitude (of_int n / 50)) 100))"
  by (simp add: temporal_confidence_def int_truediv_small [OF assms])

lemma commit_below_threshold: "n < 50 \<Longrightarrow> commit symbol n s = s"
  by (simp add: commit_def LOCK_THRESHOLD_def)

lemma handle_prediction_changed:
  assumes "symbol \<noteq> last_prediction s"
  shows "\<exists>c. handle_prediction symbol s =
           (s\<lparr>last_prediction := symbol, stable_frame_count := Some 1, already_locked := False\<rparr>,
            Inr \<lparr>prediction = symbol, confidence = c, word = current_word s,
                 character = symbol, sentence = []\<rparr>)"
proof -
  have "temporal_confidence 1 =
          Inr (py_min (Finite 100) (float_mul (round_magnitude (of_int 1 / 50)) 100))"
    using temporal_confidence_small [of 1] by simp
  then show ?thesis
    using assms
    by (simp add: handle_prediction_def update_stability_def commit_below_threshold)
qed

lemma handle_prediction_counting:
  assumes "symbol = last_prediction s" "\<not> already_locked s"
    and "stable_frame_count s = Some n" "0 \<le> n" "n + 1 < 2 ^ 1000"
  shows "\<exists>c. temporal_confidence (n + 1) = Inr c \<and>
           handle_prediction symbol s =
             (commit symbol (n + 1) (s\<lparr>stable_frame_count := Some (n + 1)\<rparr>),
              Inr \<lparr>prediction = symbol, confidence = c,
                   word = current_word (commit symbol (n + 1) (s\<lparr>stable_frame_count := Some (n + 1)\<rparr>)),
                   character = symbol, sentence = []\<rparr>)"
proof -
  have "0 \<le> n + 1" using assms(4) by simp
  from temporal_confidence_small [OF this assms(5)]
  obtain c where c: "temporal_confidence (n + 1) = Inr c" by blast
  show ?thesis
    using assms(1-3) c
    by (simp add: handle_prediction_def update_stability_def Let_def)
qed

lemma handle_prediction_locked:
  assumes "symbol = last_prediction s" "already_locked s"
    and "stable_frame_count s = Some n" "0 \<le> n" "n < 2 ^ 1000"
  shows "\<exists>c. temporal_confidence n = Inr c \<and>
           handle_prediction symbol s =
             (s, Inr \<lparr>prediction = symbol, confidence = c, word = current_word s,
                     character = symbol, sentence = []\<rparr>)"
proof -
  from temporal_confidence_small [OF assms(4,5)]
  obtain c where c: "temporal_confidence n = Inr c" by blast
  show ?thesis
    using assms(1-3) c
    by (simp add: handle_prediction_def update_stability_def commit_def Let_def)
qed

lemma handle_prediction_no_count:
  assumes "stable_frame_count s = None" "symbol = last_prediction s"
  shows "handle_prediction symbol s = (s, Inl AttributeError)"
  using assms by (simp add: handle_prediction_def update_stability_def)

lemma round_half_even_near:
  assumes "\<bar>x - of_int k\<bar> < 1 / 2"
  shows "round_half_even x = k"
proof (cases "of_int k \<le> x")
  case True
  with assms have "\<lfloor>x\<rfloor> = k" by (intro floor_unique) (simp_all add: abs_less_iff)
  with True assms show ?thesis
    by (simp add: round_half_even_def abs_less_iff)
next
  case False
  with assms have "\<lfloor>x\<rfloor> = k - 1" by (intro floor_unique) (simp_all add: abs_less_iff)
  with False assms show ?thesis
    by (simp add: round_half_even_def abs_less_iff)
qed

lemma round_magnitude_near:
  assumes "2 powi e \<le> x" "x < 2 powi (e + 1)" "- 1022 \<le> e"
    and "\<bar>x / 2 powi (e - 52) - of_int k\<bar> < 1 / 2"
  shows "round_magnitude x = of_int k * 2 powi (e - 52)"
  using round_magnitude_eval [OF assms(1-3)] round_half_even_near [OF assms(4)] by simp

lemma round_magnitude_49_50:
  "round_magnitude (49 / 50) = 2206763817411543 / 2251799813685248"
  using round_magnitude_near [of "- 1" "49 / 50" 8827055269646172] by simp

lemma round_magnitude_98:
  "round_magnitude (2206763817411543 / 2251799813685248 * 100) = 98"
  using round_magnitude_near
    [of 6 "2206763817411543 / 2251799813685248 * 100" 6896136929411072]
  by simp

lemma temporal_confidence_49: "temporal_confidence 49 = Inr (Finite 98)"
proof -
  have "float_mul (2206763817411543 / 2251799813685248) 100 = Finite 98"
    using round_magnitude_98 by (simp add: float_mul_def round_binary64_def)
  then show ?thesis
    using temporal_confidence_small [of 49]
    by (simp add: round_magnitude_49_50 py_min_def)
qed

lemma temporal_confidence_50: "temporal_confidence 50 = Inr (Finite 100)"
  using temporal_confidence_small [of 50]
  by (simp add: round_magnitude_1 float_mul_def round_binary64_def round_magnitude_100
      py_min_def)







lemma in_range_init: "in_range init_state"
  by (simp add: in_range_def init_state_def)

lemma in_range_reset: "in_range (reset_state s)"
  by (simp add: in_range_def reset_state_def init_state_def)

lemma commit_count [simp]: "stable_frame_count (commit symbol n s) = stable_frame_count s"
  by (simp add: commit_def)

lemma commit_locked [simp]:
  "already_locked (commit symbol n s) = (already_locked s \<or> 50 \<le> n)"
  by (auto simp: commit_def LOCK_THRESHOLD_def)

lemma commit_last [simp]: "last_prediction (commit symbol n s) = last_prediction s"
  by (simp add: commit_def)

lemma in_range_step:
  assumes "in_range s"
  shows "in_range (fst (handle_prediction symbol s))"
proof (cases "symbol = last_prediction s")
  case False
  from handle_prediction_changed [OF False]
  have "fst (handle_prediction symbol s)
          = s\<lparr>last_prediction := symbol, stable_frame_count := Some 1, already_locked := False\<rparr>"
    by (elim exE) simp
  then show ?thesis by (simp add: in_range_def)
next
  case True
  show ?thesis
  proof (cases "stable_frame_count s")
    case None
    then show ?thesis
      using handle_prediction_no_count [OF None True] assms by simp
  next
    case (Some n)
    with assms have n: "0 \<le> n" "n \<le> 50" "already_locked s \<longleftrightarrow> n = 50"
      by (simp_all add: in_range_def)
    show ?thesis
    proof (cases "already_locked s")
      case True
      have "n < 2 ^ 1000" using n(2) by simp
      from handle_prediction_locked [OF \<open>symbol = last_prediction s\<close> True Some n(1) this]
      have "fst (handle_prediction symbol s) = s" by (elim exE conjE) simp
      then show ?thesis using assms by simp
    next
      case False
      have "n + 1 < 2 ^ 1000" using n(2) by simp
      from handle_prediction_counting [OF \<open>symbol = last_prediction s\<close> False Some n(1) this]
      have eq: "fst (handle_prediction symbol s)
                  = commit symbol (n + 1) (s\<lparr>stable_frame_count := Some (n + 1)\<rparr>)"
        by (elim exE conjE) simp
      from False n have "n < 50" by simp
      then show ?thesis
        using n(1) False unfolding eq in_range_def by auto
    qed
  qed
qed

lemma reachable_in_range: "reachable s \<Longrightarrow> in_range s"
  by (induction rule: reachable.induct)
    (simp_all add: in_range_init in_range_reset in_range_step)

lemma feed_add: "feed (a + b) symbol s = feed b symbol (feed a symbol s)"
  by (induction a arbitrary: s) simp_all

lemma feed_counting:
  assumes "last_prediction s = symbol" "\<not> already_locked s"
    and "stable_frame_count s = Some n" "0 \<le> n" "n + int k < 50"
  shows "feed k symbol s = s\<lparr>stable_frame_count := Some (n + int k)\<rparr>"
  using assms
proof (induction k arbitrary: s n)
  case 0
  then show ?case by simp
next
  case (Suc k)
  have small: "n + 1 < 2 ^ 1000" using Suc.prems(5) by simp
  have below: "n + 1 < 50" using Suc.prems(5) by simp
  from handle_prediction_counting
    [OF Suc.prems(1) [symmetric] Suc.prems(2) Suc.prems(3) Suc.prems(4) small]
  have step: "fst (handle_prediction symbol s) = s\<lparr>stable_frame_count := Some (n + 1)\<rparr>"
    by (elim exE conjE) (simp add: commit_below_threshold [OF below])
  have "feed k symbol (s\<lparr>stable_frame_count := Some (n + 1)\<rparr>)
          = s\<lparr>stable_frame_count := Some (n + 1)\<rparr>\<lparr>stable_frame_count := Some (n + 1 + int k)\<rparr>"
    using Suc.prems by (intro Suc.IH) simp_all
  then show ?case by (simp add: step add.assoc)
qed

lemma feed_locked:
  assumes "last_prediction s = symbol" "already_locked s"
    and "stable_frame_count s = Some n" "0 \<le> n" "n < 2 ^ 1000"
  shows "feed k symbol s = s"
proof (induction k)
  case 0
  show ?case by simp
next
  case (Suc k)
  from handle_prediction_locked [OF assms(1) [symmetric] assms(2-5)]
  have "fst (handle_prediction symbol s) = s" by (elim exE conjE) simp
  then show ?case using Suc by simp
qed

lemma feed_from_reset:
  assumes "symbol \<noteq> ''blank''" "int k < 49"
  shows "feed (Suc k) symbol (reset_state s) =
           \<lparr>current_word = [], last_prediction = symbol,
            stable_frame_count = Some (1 + int k), already_locked = False\<rparr>"
proof -
  let ?s1 = "\<lparr>current_word = [], last_prediction = symbol,
              stable_frame_count = Some 1, already_locked = False\<rparr>"
  have "symbol \<noteq> last_prediction (reset_state s)"
    using assms(1) by (simp add: reset_state_def)
  from handle_prediction_changed [OF this]
  have "fst (handle_prediction symbol (reset_state s)) = ?s1"
    by (elim exE) (simp add: reset_state_def)
  moreover have "feed k symbol ?s1 = ?s1\<lparr>stable_frame_count := Some (1 + int k)\<rparr>"
    using assms(2) by (intro feed_counting) simp_all
  ultimately show ?thesis by simp
qed

lemma round_magnitude_7_50:
  "round_magnitude (7 / 50) = 1261007895663739 / 9007199254740992"
  using round_magnitude_near [of "- 3" "7 / 50" 5044031582654956] by simp

lemma temporal_confidence_7:
  "temporal_confidence 7 = Inr (Finite (7881299347898369 / 562949953421312))"
proof -
  have "round_magnitude (1261007895663739 / 9007199254740992 * 100)
          = 7881299347898369 / 562949953421312"
    using round_magnitude_near
      [of 3 "1261007895663739 / 9007199254740992 * 100" 7881299347898369]
    by simp
  then have "float_mul (1261007895663739 / 9007199254740992) 100
               = Finite (7881299347898369 / 562949953421312)"
    by (simp add: float_mul_def round_binary64_def)
  then show ?thesis
    using temporal_confidence_small [of 7]
    by (simp add: round_magnitude_7_50 py_min_def)
qed


lemma endswith_space: "endswith w '' '' \<longleftrightarrow> w \<noteq> [] \<and> last w = CHR '' ''"
proof (cases w rule: rev_cases)
  case Nil
  then show ?thesis by (simp add: endswith_def)
next
  case (snoc ys y)
  then show ?thesis by (simp add: endswith_def)
qed

lemma startswith_space: "startswith w '' '' \<longleftrightarrow> w \<noteq> [] \<and> hd w = CHR '' ''"
  by (cases w) (simp_all add: startswith_def)

lemma double_space_snoc:
  "double_space (w @ [c]) \<longleftrightarrow> double_space w \<or> (w \<noteq> [] \<and> last w = CHR '' '' \<and> c = CHR '' '')"
  by (induction w rule: double_space.induct) auto

lemma symbols_letters:
  "symbol \<in> set symbols \<Longrightarrow> symbol = ''blank'' \<or> (\<exists>c \<in> set ascii_uppercase. symbol = [c])"
  by (auto simp: symbols_def)

lemma space_not_upper: "CHR '' '' \<notin> set ascii_uppercase"
  by (simp add: ascii_uppercase_def)

text \<open>What one call does to the word, whatever the session and whether it raises.\<close>

lemma word_step:
  "current_word (fst (handle_prediction symbol s)) = current_word s
   \<or> (symbol \<noteq> ''blank''
        \<and> current_word (fst (handle_prediction symbol s)) = current_word s @ symbol)
   \<or> (symbol = ''blank'' \<and> current_word s \<noteq> [] \<and> \<not> endswith (current_word s) '' ''
        \<and> current_word (fst (handle_prediction symbol s)) = current_word s @ '' '')"
  by (auto simp: handle_prediction_def update_stability_def commit_def Let_def
      split: sum.splits option.splits if_splits)

lemma tidy_step:
  assumes "symbol \<in> set symbols"
    and "\<not> startswith (current_word s) '' ''" "\<not> double_space (current_word s)"
  shows "\<not> startswith (current_word (fst (handle_prediction symbol s))) '' ''
       \<and> \<not> double_space (current_word (fst (handle_prediction symbol s)))"
proof -
  let ?w = "current_word s" and ?w' = "current_word (fst (handle_prediction symbol s))"
  from word_step [of symbol s]
  consider "?w' = ?w"
    | "symbol \<noteq> ''blank''" "?w' = ?w @ symbol"
    | "symbol = ''blank''" "?w \<noteq> []" "\<not> endswith ?w '' ''" "?w' = ?w @ '' ''"
    by blast
  then show ?thesis
  proof cases
    case 1
    then show ?thesis using assms by simp
  next
    case 2
    with symbols_letters [OF assms(1)]
    obtain c where c: "c \<in> set ascii_uppercase" "symbol = [c]" by blast
    then have "c \<noteq> CHR '' ''" using space_not_upper by blast
    then show ?thesis
      using assms(2,3) 2(2) c(2)
      by (auto simp: startswith_space double_space_snoc hd_append)
  next
    case 3
    then show ?thesis
      using assms(2,3)
      by (auto simp: startswith_space endswith_space double_space_snoc hd_append)
  qed
qed

lemma reachable_tidy:
  "reachable s \<Longrightarrow>
     \<not> startswith (current_word s) '' '' \<and> \<not> double_space (current_word s)"
proof (induction rule: reachable.induct)
  case constructed
  show ?case by (simp add: init_state_def startswith_def)
next
  case (reset s)
  show ?case by (simp add: reset_state_def startswith_def)
next
  case (frame s symbol)
  then show ?case using tidy_step by blast
qed

lemma letters_step:
  assumes "symbol \<in> set symbols"
    and "\<forall>c \<in> set (current_word s). c \<in> set ascii_uppercase \<or> c = CHR '' ''"
  shows "\<forall>c \<in> set (current_word (fst (handle_prediction symbol s))).
           c \<in> set ascii_uppercase \<or> c = CHR '' ''"
proof -
  let ?w = "current_word s" and ?w' = "current_word (fst (handle_prediction symbol s))"
  from word_step [of symbol s]
  consider "?w' = ?w"
    | "symbol \<noteq> ''blank''" "?w' = ?w @ symbol"
    | "?w' = ?w @ '' ''"
    by blast
  then show ?thesis
  proof cases
    case 1
    then show ?thesis using assms(2) by simp
  next
    case 2
    with symbols_letters [OF assms(1)]
    obtain c where c: "c \<in> set ascii_uppercase" "symbol = [c]" by blast
    then show ?thesis using assms(2) 2(2) by auto
  next
    case 3
    then show ?thesis using assms(2) by auto
  qed
qed

lemma reachable_letters:
  "reachable s \<Longrightarrow> \<forall>c \<in> set (current_word s). c \<in> set ascii_uppercase \<or> c = CHR '' ''"
proof (induction rule: reachable.induct)
  case constructed
  show ?case by (simp add: init_state_def)
next
  case (reset s)
  show ?case by (simp add: reset_state_def)
next
  case (frame s symbol)
  then show ?case using letters_step by blast
qed

lemma reachable_feed:
  "reachable s \<Longrightarrow> symbol \<in> set symbols \<Longrightarrow> reachable (feed n symbol s)"
  by (induction n arbitrary: s) (simp_all add: reachable.frame)

section \<open>Facts about the frame pipeline\<close>

lemma np_size_roi_black_frame: "np_size (roi_of (black_frame 480 640)) = 289 * 515 * 3"
  by (simp add: np_size_def roi_of_def slice_def black_frame_def Let_def)

text \<open>
  The slice \<open>frame[y1:y1+289, x1:x1+515]\<close> starts inside the frame whenever the frame
  has a row and a column, so the region of interest is empty only for a frame without
  pixels; a frame smaller than 515 by 289 gives a smaller region, not an empty one.
\<close>

lemma roi_empty_iff:
  "np_size (roi_of frame) = 0 \<longleftrightarrow> height frame = 0 \<or> width frame = 0"
proof -
  have h: "min (nat (max 0 ((int (height frame) - 289) div 2) + 289)) (height frame)
             - min (nat (max 0 ((int (height frame) - 289) div 2))) (height frame) = 0
           \<longleftrightarrow> height frame = 0"
    by (simp add: min_def max_def) linarith
  have w: "min (nat (max 0 ((int (width frame) - 515) div 2) + 515)) (width frame)
             - min (nat (max 0 ((int (width frame) - 515) div 2))) (width frame) = 0
           \<longleftrightarrow> width frame = 0"
    by (simp add: min_def max_def) linarith
  show ?thesis
    unfolding np_size_def roi_of_def slice_def Let_def
    using h w by (simp add: nat_add_distrib)
qed

lemma strip_data_uri_plain: "strip_data_uri ''AAAA'' = ''AAAA''"
  by (simp add: strip_data_uri_def startswith_def)

lemma strip_data_uri_prefixed: "strip_data_uri ''data:image/jpeg;base64,AAAA'' = ''AAAA''"
  by (simp add: strip_data_uri_def startswith_def)

lemma preprocess_fixed_mask:
  "preprocess (fixed_collaborators (Inr (Some (black_frame 480 640))) [3000] p d t m) ''AAAA''
     = Mask ()"
  by (simp add: preprocess_def fixed_collaborators_def strip_data_uri_plain
      np_size_roi_black_frame)

lemma argmax_from_spec:
  assumes "length pre = i" "k < i" "pre ! k = best"
    and "\<forall>y \<in> set pre. y \<le> best" "\<forall>j < k. pre ! j < best"
  shows "argmax_from xs i best k < length (pre @ xs)
       \<and> (\<forall>y \<in> set (pre @ xs). y \<le> (pre @ xs) ! argmax_from xs i best k)
       \<and> (\<forall>j < argmax_from xs i best k.
             (pre @ xs) ! j < (pre @ xs) ! argmax_from xs i best k)"
  using assms
proof (induction xs arbitrary: pre i best k)
  case Nil
  then show ?case by auto
next
  case (Cons x xs)
  show ?case
  proof (cases "best < x")
    case True
    have "argmax_from xs (i + 1) x i < length ((pre @ [x]) @ xs)
       \<and> (\<forall>y \<in> set ((pre @ [x]) @ xs). y \<le> ((pre @ [x]) @ xs) ! argmax_from xs (i + 1) x i)
       \<and> (\<forall>j < argmax_from xs (i + 1) x i.
             ((pre @ [x]) @ xs) ! j < ((pre @ [x]) @ xs) ! argmax_from xs (i + 1) x i)"
    proof (rule Cons.IH)
      show "length (pre @ [x]) = i + 1" using Cons.prems(1) by simp
      show "i < i + 1" by simp
      show "(pre @ [x]) ! i = x" using Cons.prems(1) by (simp add: nth_append)
      show "\<forall>y \<in> set (pre @ [x]). y \<le> x"
      proof
        fix y assume "y \<in> set (pre @ [x])"
        then consider "y \<in> set pre" | "y = x" by auto
        then show "y \<le> x"
        proof cases
          case 1
          then have "y \<le> best" using Cons.prems(4) by blast
          then show ?thesis using True by simp
        next
          case 2
          then show ?thesis by simp
        qed
      qed
      show "\<forall>j < i. (pre @ [x]) ! j < x"
      proof (intro allI impI)
        fix j assume j: "j < i"
        then have "pre ! j \<in> set pre" using Cons.prems(1) by simp
        then have "pre ! j \<le> best" using Cons.prems(4) by blast
        then show "(pre @ [x]) ! j < x"
          using True j Cons.prems(1) by (simp add: nth_append)
      qed
    qed
    then show ?thesis using True by simp
  next
    case False
    have "argmax_from xs (i + 1) best k < length ((pre @ [x]) @ xs)
       \<and> (\<forall>y \<in> set ((pre @ [x]) @ xs). y \<le> ((pre @ [x]) @ xs) ! argmax_from xs (i + 1) best k)
       \<and> (\<forall>j < argmax_from xs (i + 1) best k.
             ((pre @ [x]) @ xs) ! j < ((pre @ [x]) @ xs) ! argmax_from xs (i + 1) best k)"
    proof (rule Cons.IH)
      show "length (pre @ [x]) = i + 1" using Cons.prems(1) by simp
      show "k < i + 1" using Cons.prems(2) by simp
      show "(pre @ [x]) ! k = best"
        using Cons.prems(1,2,3) by (simp add: nth_append)
      show "\<forall>y \<in> set (pre @ [x]). y \<le> best" using Cons.prems(4) False by auto
      show "\<forall>j < k. (pre @ [x]) ! j < best"
        using Cons.prems(1,2,5) by (simp add: nth_append)
    qed
    then show ?thesis using False by simp
  qed
qed

lemma np_argmax_spec:
  assumes "np_argmax v = Inr i"
  shows "i < length v \<and> v ! i = Max (set v) \<and> (\<forall>j < i. v ! j < v ! i)"
proof (cases v)
  case Nil
  with assms show ?thesis by (simp add: np_argmax_def)
next
  case (Cons x xs)
  with assms have i: "i = argmax_from xs 1 x 0" by (simp add: np_argmax_def)
  have s: "argmax_from xs 1 x 0 < length ([x] @ xs)
       \<and> (\<forall>y \<in> set ([x] @ xs). y \<le> ([x] @ xs) ! argmax_from xs 1 x 0)
       \<and> (\<forall>j < argmax_from xs 1 x 0. ([x] @ xs) ! j < ([x] @ xs) ! argmax_from xs 1 x 0)"
    by (rule argmax_from_spec) simp_all
  then have b: "i < length v" "\<forall>y \<in> set v. y \<le> v ! i" "\<forall>j < i. v ! j < v ! i"
    using i Cons by simp_all
  have "Max (set v) = v ! i"
    using b(1,2) by (intro Max_eqI) simp_all
  then show ?thesis using b by simp
qed

lemma np_argmax_nonempty: "v \<noteq> [] \<Longrightarrow> \<exists>i. np_argmax v = Inr i"
  by (cases v) (simp_all add: np_argmax_def)

lemma map_labels_enumerate:
  "map (fst \<circ> (\<lambda>(i, char). ([char], f i))) (enumerate n cs) = map (\<lambda>c. [c]) cs"
  by (induction cs arbitrary: n) simp_all

lemma prediction_map_labels:
  "prediction_map result0 = Inr pm \<Longrightarrow> map fst pm = symbols"
  by (auto simp: prediction_map_def symbols_def map_labels_enumerate split: if_splits)

lemma top_symbol_in: "pm \<noteq> [] \<Longrightarrow> top_symbol pm \<in> fst ` set pm"
proof -
  assume "pm \<noteq> []"
  have "sort_key (\<lambda>item. - snd item) pm \<noteq> []"
  proof
    assume "sort_key (\<lambda>item. - snd item) pm = []"
    then have "length (sort_key (\<lambda>item. - snd item) pm) = 0" by simp
    then have "length pm = 0" by (simp only: length_sort)
    with \<open>pm \<noteq> []\<close> show False by simp
  qed
  then have "hd (sort_key (\<lambda>item. - snd item) pm) \<in> set (sort_key (\<lambda>item. - snd item) pm)"
    by (rule hd_in_set)
  then show ?thesis by (simp add: top_symbol_def)
qed

lemma refine_labels: "refine model labels input_data = Inr y \<Longrightarrow> y \<in> set labels"
  by (auto simp: refine_def split: sum.splits if_splits)

lemma group_labels:
  "set [''D'', ''R'', ''U''] \<subseteq> set symbols"
  "set [''D'', ''I'', ''K'', ''T''] \<subseteq> set symbols"
  "set [''M'', ''N'', ''S''] \<subseteq> set symbols"
  by (simp_all add: symbols_def ascii_uppercase_def)

lemma classify_symbol:
  assumes "classify env input_data = Inr y"
  shows "y \<in> set symbols"
proof -
  from assms obtain result0 pm where
    r: "loaded_model env input_data = Inr result0" and p: "prediction_map result0 = Inr pm"
    by (auto simp: classify_def split: sum.splits)
  have labels: "map fst pm = symbols" using p by (rule prediction_map_labels)
  then have "pm \<noteq> []" by (auto simp: symbols_def)
  then have "top_symbol pm \<in> fst ` set pm" by (rule top_symbol_in)
  moreover have "fst ` set pm = set symbols" using labels by (simp flip: set_map)
  ultimately have top: "top_symbol pm \<in> set symbols" by simp
  define top where "top = top_symbol pm"
  have c: "(if top \<in> set [''D'', ''R'', ''U''] then
              refine (loaded_model_dru env) [''D'', ''R'', ''U''] input_data
            else if top \<in> set [''D'', ''I'', ''K'', ''T''] then
              refine (loaded_model_tkdi env) [''D'', ''I'', ''K'', ''T''] input_data
            else if top \<in> set [''M'', ''N'', ''S''] then
              refine (loaded_model_smn env) [''M'', ''N'', ''S''] input_data
            else Inr top) = Inr y"
    using assms unfolding classify_def top_def by (simp only: r p sum.case Let_def)
  show ?thesis
  proof (cases "top \<in> set [''D'', ''R'', ''U'']")
    case True
    with c have "refine (loaded_model_dru env) [''D'', ''R'', ''U''] input_data = Inr y"
      by (simp only: if_True)
    then have "y \<in> set [''D'', ''R'', ''U'']" by (rule refine_labels)
    with group_labels(1) show ?thesis by (rule subsetD)
  next
    case dru: False
    show ?thesis
    proof (cases "top \<in> set [''D'', ''I'', ''K'', ''T'']")
      case True
      with c dru
      have "refine (loaded_model_tkdi env) [''D'', ''I'', ''K'', ''T''] input_data = Inr y"
        by (simp only: if_True if_False)
      then have "y \<in> set [''D'', ''I'', ''K'', ''T'']" by (rule refine_labels)
      with group_labels(2) show ?thesis by (rule subsetD)
    next
      case tkdi: False
      show ?thesis
      proof (cases "top \<in> set [''M'', ''N'', ''S'']")
        case True
        with c dru tkdi
        have "refine (loaded_model_smn env) [''M'', ''N'', ''S''] input_data = Inr y"
          by (simp only: if_True if_False)
        then have "y \<in> set [''M'', ''N'', ''S'']" by (rule refine_labels)
        with group_labels(3) show ?thesis by (rule subsetD)
      next
        case False
        with c dru tkdi have "Inr top = (Inr y :: exn + string)"
          by (simp only: if_False)
        then show ?thesis using top by (simp add: top_def)
      qed
    qed
  qed
qed

lemma sample_prediction_map:
  "prediction_map sample_scores =
     Inr [(''blank'', 1 / 100), (''A'', 0), (''B'', 0), (''C'', 1 / 20), (''D'', 9 / 10),
          (''E'', 0), (''F'', 0), (''G'', 0), (''H'', 0), (''I'', 0), (''J'', 0),
          (''K'', 0), (''L'', 0), (''M'', 0), (''N'', 0), (''O'', 0), (''P'', 0),
          (''Q'', 0), (''R'', 1 / 25), (''S'', 0), (''T'', 0), (''U'', 0), (''V'', 0),
          (''W'', 0), (''X'', 0), (''Y'', 0), (''Z'', 0)]"
  by (simp add: prediction_map_def sample_scores_def ascii_uppercase_def)

lemma sample_top_symbol:
  "top_symbol
     [(''blank'', 1 / 100), (''A'', 0), (''B'', 0), (''C'', 1 / 20), (''D'', 9 / 10),
      (''E'', 0), (''F'', 0), (''G'', 0), (''H'', 0), (''I'', 0), (''J'', 0),
      (''K'', 0), (''L'', 0), (''M'', 0), (''N'', 0), (''O'', 0), (''P'', 0),
      (''Q'', 0), (''R'', 1 / 25), (''S'', 0), (''T'', 0), (''U'', 0), (''V'', 0),
      (''W'', 0), (''X'', 0), (''Y'', 0), (''Z'', 0 :: rat)] = ''D''"
  by (simp add: top_symbol_def)

lemma sample_argmax: "np_argmax [1 / 10, 7 / 10, 1 / 5] = Inr 1"
  by (simp add: np_argmax_def)

lemma sample_classify: "classify sample_collaborators () = Inr ''R''"
  by (simp add: classify_def sample_collaborators_def fixed_collaborators_def
      sample_prediction_map sample_top_symbol refine_def sample_argmax)

lemma sample_preprocess: "preprocess sample_collaborators ''AAAA'' = Mask ()"
  unfolding sample_collaborators_def by (rule preprocess_fixed_mask)

lemma feed_fifty:
  assumes "symbol \<noteq> ''blank''"
  shows "feed 50 symbol (reset_state s) =
           \<lparr>current_word = symbol, last_prediction = symbol,
            stable_frame_count = Some 50, already_locked = True\<rparr>"
proof -
  let ?s49 = "\<lparr>current_word = [], last_prediction = symbol,
               stable_frame_count = Some 49, already_locked = False\<rparr>"
  have f49: "feed 49 symbol (reset_state s) = ?s49"
    using feed_from_reset [OF assms, of 48 s] by simp
  have "commit symbol 50 (?s49\<lparr>stable_frame_count := Some 50\<rparr>) =
          \<lparr>current_word = symbol, last_prediction = symbol,
           stable_frame_count = Some 50, already_locked = True\<rparr>"
    using assms by (simp add: commit_def LOCK_THRESHOLD_def)
  then have "fst (handle_prediction symbol ?s49) =
          \<lparr>current_word = symbol, last_prediction = symbol,
           stable_frame_count = Some 50, already_locked = True\<rparr>"
    using handle_prediction_counting [of symbol ?s49 49] by auto
  then show ?thesis
    using feed_add [of 49 1 symbol "reset_state s"] by (simp add: f49)
qed

section \<open>The claims\<close>

text \<open>
  C3. The claim: right after construction, before any reset or frame, the session has
  \<open>stableFrameCount = 0\<close>, an initialised integer. The constructor (lines 40 to 44)
  assigns \<open>current_word\<close>, \<open>last_prediction\<close> and \<open>already_locked\<close> but never
  \<open>stable_frame_count\<close>; only \<open>reset_state\<close> (line 76) creates it. The constructed
  session therefore has no frame count, differs there from the reset session, and a first
  frame that is blank raises \<open>AttributeError\<close> at \<open>self.stable_frame_count += 1\<close>.
\<close>

theorem constructed_session_lacks_frame_count:
  "stable_frame_count init_state = None \<and>
   stable_frame_count init_state \<noteq> stable_frame_count (reset_state init_state) \<and>
   handle_prediction ''blank'' init_state = (init_state, Inl AttributeError)"
  by (simp add: init_state_def reset_state_def handle_prediction_def update_stability_def)

text \<open>
  C9. A payload that cannot be decoded (the decoding raises, or \<open>cv2.imdecode\<close>
  returns \<open>None\<close>) makes \<open>process_frame\<close> return \<open>None\<close>, which the route turns into
  the processing-failed answer, and the whole session is as it was before the call.
  An empty payload never reaches the decoder: line 80 answers it before the \<open>try\<close>.
\<close>

theorem decode_failure_is_atomic:
  assumes "image_data_base64 \<noteq> []"
    and "cv_imdecode env (strip_data_uri image_data_base64) = Inl e
         \<or> cv_imdecode env (strip_data_uri image_data_base64) = Inr None"
  shows "process_frame env image_data_base64 s = (s, ReturnedNone)"
  using assms by (auto simp: process_frame_def preprocess_def)

theorem decode_failure_is_atomic_witness:
  "''AAAA'' \<noteq> [] \<and>
   cv_imdecode (fixed_collaborators (Inr None) [] (Inr []) (Inr []) (Inr []) (Inr []))
     (strip_data_uri ''AAAA'') = Inr None \<and>
   process_frame (fixed_collaborators (Inr None) [] (Inr []) (Inr []) (Inr []) (Inr []))
     ''AAAA'' (reset_state init_state) = (reset_state init_state, ReturnedNone)"
proof -
  let ?env = "fixed_collaborators (Inr None) [] (Inr []) (Inr []) (Inr []) (Inr [])"
  have h1: "''AAAA'' \<noteq> []" by simp
  have h2: "cv_imdecode ?env (strip_data_uri ''AAAA'') = Inr None"
    by (simp add: fixed_collaborators_def)
  from decode_failure_is_atomic [OF h1 disjI2, OF h2, of "reset_state init_state"] h1 h2
  show ?thesis by simp
qed

text \<open>
  C2. The claim: a failure raised during inference on a well-formed mask is caught by
  \<open>process_frame\<close> and turned into a processing-failed result. The only \<open>try\<close> of
  \<open>process_frame\<close> ends at line 92, before the preprocessing; nothing encloses the
  calls of \<open>predict\<close>. With a primary classifier that raises, the exception leaves
  \<open>process_frame\<close>: the result is not \<open>None\<close>.
\<close>

theorem inference_failure_counterexample:
  "process_frame
     (fixed_collaborators (Inr (Some (black_frame 480 640))) [3000]
        (Inl (LibraryError ''predict'')) (Inr []) (Inr []) (Inr []))
     ''AAAA'' (reset_state init_state)
   = (reset_state init_state, Raised (LibraryError ''predict''))"
proof -
  let ?env = "fixed_collaborators (Inr (Some (black_frame 480 640))) [3000]
        (Inl (LibraryError ''predict'')) (Inr []) (Inr []) (Inr [])"
  have "classify ?env () = Inl (LibraryError ''predict'')"
    by (simp add: classify_def fixed_collaborators_def)
  then show ?thesis
    by (simp add: process_frame_def preprocess_fixed_mask)
qed

text \<open>
  C2, as amended. When the preprocessing has produced a mask and the cascade raises on
  it, the exception propagates out of \<open>process_frame\<close> uncaught, and the session is
  exactly as it was before the call: \<open>_handle_prediction\<close> has not been reached.
\<close>

theorem inference_failure_propagates:
  assumes "preprocess env image_data_base64 = Mask input_data"
    and "classify env input_data = Inl e"
  shows "process_frame env image_data_base64 s = (s, Raised e)"
  using assms by (simp add: process_frame_def)

theorem inference_failure_propagates_witness:
  "preprocess
     (fixed_collaborators (Inr (Some (black_frame 480 640))) [3000]
        (Inl (LibraryError ''predict'')) (Inr []) (Inr []) (Inr []))
     ''AAAA'' = Mask () \<and>
   classify
     (fixed_collaborators (Inr (Some (black_frame 480 640))) [3000]
        (Inl (LibraryError ''predict'')) (Inr []) (Inr []) (Inr []))
     () = Inl (LibraryError ''predict'') \<and>
   process_frame
     (fixed_collaborators (Inr (Some (black_frame 480 640))) [3000]
        (Inl (LibraryError ''predict'')) (Inr []) (Inr []) (Inr []))
     ''AAAA'' init_state = (init_state, Raised (LibraryError ''predict''))"
proof -
  let ?env = "fixed_collaborators (Inr (Some (black_frame 480 640))) [3000]
        (Inl (LibraryError ''predict'')) (Inr []) (Inr []) (Inr [])"
  have h1: "preprocess ?env ''AAAA'' = Mask ()" by (rule preprocess_fixed_mask)
  have h2: "classify ?env () = Inl (LibraryError ''predict'')"
    by (simp add: classify_def fixed_collaborators_def)
  from inference_failure_propagates [OF h1 h2, of init_state] h1 h2
  show ?thesis by simp
qed

text \<open>
  C1. From a freshly reset session, the same symbol other than \<open>blank\<close> on 50
  consecutive frames commits exactly once. After 49 frames the session counts 49, is not
  locked and the word is still empty; the 49th response carries confidence 98 and the
  empty word. The 50th frame returns confidence 100 and the word consisting of that one
  symbol, and leaves the session locked. However many frames with the same symbol follow,
  the word stays that one symbol.
\<close>

theorem fifty_frames_commit_once:
  assumes "symbol \<noteq> ''blank''"
  shows "feed 49 symbol (reset_state s) =
           \<lparr>current_word = [], last_prediction = symbol,
            stable_frame_count = Some 49, already_locked = False\<rparr>
       \<and> snd (handle_prediction symbol (feed 48 symbol (reset_state s))) =
           Inr \<lparr>prediction = symbol, confidence = Finite 98, word = [],
                character = symbol, sentence = []\<rparr>
       \<and> handle_prediction symbol (feed 49 symbol (reset_state s)) =
           (\<lparr>current_word = symbol, last_prediction = symbol,
             stable_frame_count = Some 50, already_locked = True\<rparr>,
            Inr \<lparr>prediction = symbol, confidence = Finite 100, word = symbol,
                 character = symbol, sentence = []\<rparr>)
       \<and> (\<forall>k. current_word (feed (50 + k) symbol (reset_state s)) = symbol)"
proof -
  let ?at = "\<lambda>n. \<lparr>current_word = [], last_prediction = symbol,
                    stable_frame_count = Some n, already_locked = False\<rparr>"
  let ?locked = "\<lparr>current_word = symbol, last_prediction = symbol,
                  stable_frame_count = Some 50, already_locked = True\<rparr>"
  have f48: "feed 48 symbol (reset_state s) = ?at 48"
    using feed_from_reset [OF assms, of 47 s] by simp
  have f49: "feed 49 symbol (reset_state s) = ?at 49"
    using feed_from_reset [OF assms, of 48 s] by simp
  have h49: "handle_prediction symbol (?at 48) =
               (?at 49, Inr \<lparr>prediction = symbol, confidence = Finite 98, word = [],
                              character = symbol, sentence = []\<rparr>)"
    using handle_prediction_counting [of symbol "?at 48" 48]
    by (simp add: temporal_confidence_49 commit_below_threshold)
  have c50: "commit symbol 50 (?at 50) = ?locked"
    using assms by (simp add: commit_def LOCK_THRESHOLD_def)
  have h50: "handle_prediction symbol (?at 49) =
               (?locked, Inr \<lparr>prediction = symbol, confidence = Finite 100, word = symbol,
                               character = symbol, sentence = []\<rparr>)"
    using handle_prediction_counting [of symbol "?at 49" 49]
    by (simp add: temporal_confidence_50 c50)
  have f50: "feed 50 symbol (reset_state s) = ?locked"
    using feed_add [of 49 1 symbol "reset_state s"] by (simp add: f49 h50)
  have later: "feed (50 + k) symbol (reset_state s) = ?locked" for k
    using feed_locked [of ?locked symbol 50 k] by (simp add: feed_add f50)
  show ?thesis
    by (simp add: f48 f49 h49 h50 later)
qed

theorem fifty_frames_commit_once_witness:
  "''A'' \<noteq> ''blank''
   \<and> feed 49 ''A'' (reset_state init_state) =
       \<lparr>current_word = [], last_prediction = ''A'',
        stable_frame_count = Some 49, already_locked = False\<rparr>
   \<and> snd (handle_prediction ''A'' (feed 48 ''A'' (reset_state init_state))) =
       Inr \<lparr>prediction = ''A'', confidence = Finite 98, word = [],
            character = ''A'', sentence = []\<rparr>
   \<and> handle_prediction ''A'' (feed 49 ''A'' (reset_state init_state)) =
       (\<lparr>current_word = ''A'', last_prediction = ''A'',
         stable_frame_count = Some 50, already_locked = True\<rparr>,
        Inr \<lparr>prediction = ''A'', confidence = Finite 100, word = ''A'',
             character = ''A'', sentence = []\<rparr>)
   \<and> current_word (feed 60 ''A'' (reset_state init_state)) = ''A''"
proof -
  have h: "''A'' \<noteq> ''blank''" by simp
  note t = fifty_frames_commit_once [OF h, of init_state]
  from t have "current_word (feed (50 + 10) ''A'' (reset_state init_state)) = ''A''"
    by blast
  then have k: "current_word (feed 60 ''A'' (reset_state init_state)) = ''A''"
    by simp
  show ?thesis using h t k by blast
qed

text \<open>
  C7. Whenever the incoming symbol differs from \<open>last_prediction\<close>, whatever the
  session (locked or not, with or without a frame count), \<open>_handle_prediction\<close>
  returns, and leaves the session with the new symbol, a frame count of exactly 1 and the
  lock cleared; the word is untouched. Among the sessions the service can reach, the only
  one whose frame count is 0 is the reset session.
\<close>

theorem symbol_change_restarts_count:
  "(symbol \<noteq> last_prediction s \<longrightarrow>
      (\<exists>r. handle_prediction symbol s =
         (s\<lparr>last_prediction := symbol, stable_frame_count := Some 1, already_locked := False\<rparr>,
          Inr r)))
   \<and> (reachable s' \<and> stable_frame_count s' = Some 0 \<longrightarrow> s' = reset_state init_state)"
proof (intro conjI impI)
  assume "symbol \<noteq> last_prediction s"
  from handle_prediction_changed [OF this]
  show "\<exists>r. handle_prediction symbol s =
         (s\<lparr>last_prediction := symbol, stable_frame_count := Some 1, already_locked := False\<rparr>,
          Inr r)"
    by blast
next
  assume "reachable s' \<and> stable_frame_count s' = Some 0"
  then have "in_range s'" and "stable_frame_count s' = Some 0"
    by (simp_all add: reachable_in_range)
  then show "s' = reset_state init_state"
    by (simp add: in_range_def)
qed

theorem symbol_change_restarts_count_witness:
  "''B'' \<noteq> last_prediction
      \<lparr>current_word = ''A'', last_prediction = ''A'',
       stable_frame_count = Some 50, already_locked = True\<rparr>
   \<and> (\<exists>r. handle_prediction ''B''
          \<lparr>current_word = ''A'', last_prediction = ''A'',
           stable_frame_count = Some 50, already_locked = True\<rparr> =
        (\<lparr>current_word = ''A'', last_prediction = ''B'',
          stable_frame_count = Some 1, already_locked = False\<rparr>, Inr r))
   \<and> reachable (reset_state init_state)
   \<and> stable_frame_count (reset_state init_state) = Some 0"
proof -
  let ?s = "\<lparr>current_word = ''A'', last_prediction = ''A'',
             stable_frame_count = Some 50, already_locked = True\<rparr>"
  have h1: "''B'' \<noteq> last_prediction ?s" by simp
  have h2: "reachable (reset_state init_state)"
    by (rule reachable.reset) (rule reachable.constructed)
  have h3: "stable_frame_count (reset_state init_state) = Some 0"
    by (simp add: reset_state_def)
  from symbol_change_restarts_count [of "''B''" ?s "reset_state init_state"] h1
  have "\<exists>r. handle_prediction ''B'' ?s =
          (?s\<lparr>last_prediction := ''B'', stable_frame_count := Some 1, already_locked := False\<rparr>,
           Inr r)"
    by blast
  then show ?thesis using h1 h2 h3 by simp
qed





text \<open>
  C6. When a blank is committed (the session's symbol is \<open>blank\<close>, it is not locked
  and this frame brings the count to 50 or more), the call returns, locks the session and
  appends exactly one space if the word is non-empty and does not end with a space;
  otherwise the word is unchanged. Consequently, in every session the service can reach,
  the word neither starts with a space nor contains two spaces in a row.
\<close>

theorem blank_commit_spacing:
  "(last_prediction s = ''blank'' \<and> \<not> already_locked s \<and> stable_frame_count s = Some n
      \<and> 49 \<le> n \<and> n < 2 ^ 999 \<longrightarrow>
      (\<exists>r. handle_prediction ''blank'' s =
         (s\<lparr>current_word :=
               (if current_word s \<noteq> [] \<and> \<not> endswith (current_word s) '' ''
                then current_word s @ '' '' else current_word s),
             stable_frame_count := Some (n + 1),
             already_locked := True\<rparr>, Inr r)))
   \<and> (reachable s' \<longrightarrow>
        \<not> startswith (current_word s') '' '' \<and> \<not> double_space (current_word s'))"
proof -
  have "\<exists>r. handle_prediction ''blank'' s =
         (s\<lparr>current_word :=
               (if current_word s \<noteq> [] \<and> \<not> endswith (current_word s) '' ''
                then current_word s @ '' '' else current_word s),
             stable_frame_count := Some (n + 1),
             already_locked := True\<rparr>, Inr r)"
    if a: "last_prediction s = ''blank'' \<and> \<not> already_locked s
      \<and> stable_frame_count s = Some n \<and> 49 \<le> n \<and> n < 2 ^ 999"
  proof -
    from a have h: "''blank'' = last_prediction s" "\<not> already_locked s"
      "stable_frame_count s = Some n" "0 \<le> n" "n + 1 < 2 ^ 1000"
      by simp_all
    have "commit ''blank'' (n + 1) (s\<lparr>stable_frame_count := Some (n + 1)\<rparr>) =
            s\<lparr>current_word :=
                 (if current_word s \<noteq> [] \<and> \<not> endswith (current_word s) '' ''
                  then current_word s @ '' '' else current_word s),
               stable_frame_count := Some (n + 1),
               already_locked := True\<rparr>"
      using a by (simp add: commit_def LOCK_THRESHOLD_def)
    with handle_prediction_counting [OF h] show ?thesis by auto
  qed
  then show ?thesis using reachable_tidy [of s'] by blast
qed

theorem blank_commit_spacing_witness:
  "last_prediction
      \<lparr>current_word = ''A'', last_prediction = ''blank'',
       stable_frame_count = Some 49, already_locked = False\<rparr> = ''blank''
   \<and> \<not> already_locked
      \<lparr>current_word = ''A'', last_prediction = ''blank'',
       stable_frame_count = Some 49, already_locked = False\<rparr>
   \<and> stable_frame_count
      \<lparr>current_word = ''A'', last_prediction = ''blank'',
       stable_frame_count = Some 49, already_locked = False\<rparr> = Some 49
   \<and> (49::int) \<le> 49 \<and> (49::int) < 2 ^ 999
   \<and> (\<exists>r. handle_prediction ''blank''
          \<lparr>current_word = ''A'', last_prediction = ''blank'',
           stable_frame_count = Some 49, already_locked = False\<rparr> =
        (\<lparr>current_word = ''A '', last_prediction = ''blank'',
          stable_frame_count = Some 50, already_locked = True\<rparr>, Inr r))
   \<and> reachable (reset_state init_state)
   \<and> \<not> startswith (current_word (reset_state init_state)) '' ''
   \<and> \<not> double_space (current_word (reset_state init_state))"
proof -
  let ?s = "\<lparr>current_word = ''A'', last_prediction = ''blank'',
             stable_frame_count = Some 49, already_locked = False\<rparr>"
  have h: "last_prediction ?s = ''blank'' \<and> \<not> already_locked ?s
      \<and> stable_frame_count ?s = Some 49 \<and> (49::int) \<le> 49 \<and> (49::int) < 2 ^ 999"
    by simp
  have r: "reachable (reset_state init_state)"
    by (rule reachable.reset) (rule reachable.constructed)
  note t = blank_commit_spacing [of ?s 49 "reset_state init_state"]
  from t h have "\<exists>r. handle_prediction ''blank'' ?s =
         (?s\<lparr>current_word :=
               (if current_word ?s \<noteq> [] \<and> \<not> endswith (current_word ?s) '' ''
                then current_word ?s @ '' '' else current_word ?s),
             stable_frame_count := Some (49 + 1),
             already_locked := True\<rparr>, Inr r)"
    by blast
  then have a: "\<exists>r. handle_prediction ''blank'' ?s =
        (\<lparr>current_word = ''A '', last_prediction = ''blank'',
          stable_frame_count = Some 50, already_locked = True\<rparr>, Inr r)"
    by (simp add: endswith_def)
  from t r have b: "\<not> startswith (current_word (reset_state init_state)) '' ''
      \<and> \<not> double_space (current_word (reset_state init_state))"
    by blast
  show ?thesis using h a r b by blast
qed

text \<open>
  C4. When the primary classifier's top label is \<open>D\<close> and the DRU classifier answers
  with its three scores, the final symbol is the label of \<open>D\<close>, \<open>R\<close>, \<open>U\<close> at the
  first index of the greatest DRU score: that score is the maximum and every earlier one
  is smaller. The result is the same whatever stands for the TKDI classifier, which is
  never called, and a frame that reaches the cascade with this mask hands that label to
  \<open>_handle_prediction\<close>.
\<close>

theorem d_is_refined_by_dru:
  assumes "loaded_model env input_data = Inr result0"
    and "prediction_map result0 = Inr pm"
    and "top_symbol pm = ''D''"
    and "loaded_model_dru env input_data = Inr res"
    and "length res = 3"
  shows "\<exists>i<3. classify env input_data = Inr ([''D'', ''R'', ''U''] ! i)
           \<and> res ! i = Max (set res) \<and> (\<forall>j<i. res ! j < res ! i)
           \<and> (\<forall>tkdi. classify (env\<lparr>loaded_model_tkdi := tkdi\<rparr>) input_data
                        = classify env input_data)
           \<and> (\<forall>image s. preprocess env image = Mask input_data \<longrightarrow>
                 process_frame env image s
                   = finish (handle_prediction ([''D'', ''R'', ''U''] ! i) s))"
proof -
  have "res \<noteq> []" using assms(5) by auto
  then obtain i where i: "np_argmax res = Inr i" using np_argmax_nonempty by blast
  note sp = np_argmax_spec [OF i]
  have s1: "i < 3" using sp assms(5) by simp
  have s2: "res ! i = Max (set res)" using sp by blast
  have s3: "\<forall>j<i. res ! j < res ! i" using sp by blast
  note spec = s1 s2 s3
  have r: "refine (loaded_model_dru env) [''D'', ''R'', ''U''] input_data
             = Inr ([''D'', ''R'', ''U''] ! i)"
    using assms(4) i spec(1) by (simp add: refine_def)
  have c: "classify env input_data = Inr ([''D'', ''R'', ''U''] ! i)"
    using assms(1-3) r by (simp add: classify_def)
  have t: "classify (env\<lparr>loaded_model_tkdi := tkdi\<rparr>) input_data = classify env input_data"
    for tkdi
    using assms(1-3) by (simp add: classify_def)
  have p: "process_frame env image s
             = finish (handle_prediction ([''D'', ''R'', ''U''] ! i) s)"
    if "preprocess env image = Mask input_data" for image s
    using that c by (simp add: process_frame_def)
  show ?thesis using spec c t p by blast
qed

theorem d_is_refined_by_dru_witness:
  "loaded_model sample_collaborators () = Inr sample_scores
   \<and> (\<exists>pm. prediction_map sample_scores = Inr pm \<and> top_symbol pm = ''D'')
   \<and> loaded_model_dru sample_collaborators () = Inr [1 / 10, 7 / 10, 1 / 5]
   \<and> length [1 / 10, 7 / 10, 1 / 5 :: rat] = 3
   \<and> loaded_model_tkdi sample_collaborators () = Inl (LibraryError ''tkdi'')
   \<and> classify sample_collaborators () = Inr ''R''
   \<and> process_frame sample_collaborators ''AAAA'' (reset_state init_state)
       = finish (handle_prediction ''R'' (reset_state init_state))"
proof -
  let ?res = "[1 / 10, 7 / 10, 1 / 5 :: rat]"
  have h1: "loaded_model sample_collaborators () = Inr sample_scores"
    by (simp add: sample_collaborators_def fixed_collaborators_def)
  note h2 = sample_prediction_map
  note h3 = sample_top_symbol
  have h4: "loaded_model_dru sample_collaborators () = Inr ?res"
    by (simp add: sample_collaborators_def fixed_collaborators_def)
  have h5: "length ?res = 3" by simp
  have h6: "loaded_model_tkdi sample_collaborators () = Inl (LibraryError ''tkdi'')"
    by (simp add: sample_collaborators_def fixed_collaborators_def)
  from d_is_refined_by_dru [OF h1 h2 h3 h4 h5]
  obtain i where i: "i < 3"
    and c: "classify sample_collaborators () = Inr ([''D'', ''R'', ''U''] ! i)"
    and m: "?res ! i = Max (set ?res)"
    and p: "\<forall>image s. preprocess sample_collaborators image = Mask () \<longrightarrow>
                 process_frame sample_collaborators image s
                   = finish (handle_prediction ([''D'', ''R'', ''U''] ! i) s)"
    by blast
  have "Max (set ?res) = 7 / 10" by simp
  with m have v: "?res ! i = 7 / 10" by simp
  from i have "i = 0 \<or> i = 1 \<or> i = 2" by arith
  with v have "i = 1" by auto
  then have label: "[''D'', ''R'', ''U''] ! i = ''R''" by simp
  have c': "classify sample_collaborators () = Inr ''R''" using c label by simp
  have p': "process_frame sample_collaborators ''AAAA'' (reset_state init_state)
       = finish (handle_prediction ''R'' (reset_state init_state))"
    using p sample_preprocess label by simp
  show ?thesis using h1 h2 h3 h4 h5 h6 c' p' by blast
qed

text \<open>
  C10. In every session the service can reach, by resets and by calls of
  \<open>_handle_prediction\<close> with the symbols \<open>blank\<close> and \<open>A\<close> to \<open>Z\<close>, each character
  of the word is an upper-case letter or a space. Those are the only symbols the pipeline
  passes on: the cascade returns one of them whenever it returns, and \<open>process_frame\<close>
  takes a reachable session to a reachable session.
\<close>

theorem word_is_letters_and_spaces:
  "(reachable s \<longrightarrow>
      (\<forall>c \<in> set (current_word s). c \<in> set ascii_uppercase \<or> c = CHR '' ''))
   \<and> (classify env input_data = Inr symbol \<longrightarrow> symbol \<in> set symbols)
   \<and> (reachable s \<longrightarrow> reachable (fst (process_frame env image_data_base64 s)))"
proof -
  have step: "reachable (fst (process_frame env image_data_base64 s))" if r: "reachable s"
  proof (cases "preprocess env image_data_base64")
    case (Stop out)
    then show ?thesis using r by (simp add: process_frame_def)
  next
    case Blank
    have "''blank'' \<in> set symbols" by (simp add: symbols_def)
    with r have "reachable (fst (handle_prediction ''blank'' s))" by (rule reachable.frame)
    then show ?thesis using Blank by (simp add: process_frame_def finish_def)
  next
    case (Mask x)
    show ?thesis
    proof (cases "classify env x")
      case (Inl e)
      then show ?thesis using Mask r by (simp add: process_frame_def)
    next
      case (Inr y)
      then have "y \<in> set symbols" by (rule classify_symbol)
      with r have "reachable (fst (handle_prediction y s))" by (rule reachable.frame)
      then show ?thesis using Mask Inr by (simp add: process_frame_def finish_def)
    qed
  qed
  show ?thesis
    using reachable_letters [of s] classify_symbol [of env input_data symbol] step
    by blast
qed

theorem word_is_letters_and_spaces_witness:
  "reachable (feed 50 ''A'' (reset_state init_state))
   \<and> current_word (feed 50 ''A'' (reset_state init_state)) = ''A''
   \<and> (CHR ''A'' \<in> set ascii_uppercase \<or> CHR ''A'' = CHR '' '')
   \<and> classify sample_collaborators () = Inr ''R''
   \<and> ''R'' \<in> set symbols
   \<and> reachable
       (fst (process_frame sample_collaborators ''AAAA''
          (feed 50 ''A'' (reset_state init_state))))"
proof -
  let ?s = "feed 50 ''A'' (reset_state init_state)"
  have a: "''A'' \<in> set symbols" by (simp add: symbols_def ascii_uppercase_def)
  have r0: "reachable (reset_state init_state)"
    by (rule reachable.reset) (rule reachable.constructed)
  have r: "reachable ?s" using r0 a by (rule reachable_feed)
  have w: "current_word ?s = ''A''" by (simp add: feed_fifty)
  note t = word_is_letters_and_spaces
    [of ?s sample_collaborators "()" "''R''" "''AAAA''"]
  from t r have "\<forall>c \<in> set (current_word ?s). c \<in> set ascii_uppercase \<or> c = CHR '' ''"
    by blast
  then have l: "CHR ''A'' \<in> set ascii_uppercase \<or> CHR ''A'' = CHR '' ''"
    unfolding w by simp
  from t sample_classify have m: "''R'' \<in> set symbols" by blast
  from t r have p: "reachable (fst (process_frame sample_collaborators ''AAAA'' ?s))"
    by blast
  show ?thesis using r w l sample_classify m p by blast
qed

end
